theory Spec2Isabelle
  imports
    Complex_Main
    "HOL-Library.Sublist"
    "HOL-Library.List_Lexorder"
    "HOL-Library.Multiset"
    "HOL-Library.Word"
begin

section \<open>JavaScript strings and arrays\<close>

text \<open>
  A JavaScript string is the list of its UTF-16 code units, and \<open>js\<close> writes an ASCII
  literal of the source. Equality, \<open>includes\<close>, \<open>endsWith\<close> and \<open><\<close> of the language all
  work on the code units.
\<close>

type_synonym jschar = "16 word"
type_synonym jsstring = "jschar list"

definition js :: "string \<Rightarrow> jsstring" where
  "js s = map of_char s"

text \<open>
  \<open>String.prototype.toLowerCase\<close>. On a string of ASCII characters it maps the letters
  \<open>A\<close> to \<open>Z\<close> to \<open>a\<close> to \<open>z\<close>, one by one. On any other string it is the lower-case
  mapping of Unicode, which does not go character by character (the final sigma, the
  dotted capital I); that mapping is the parameter \<open>lower\<close>.
\<close>

definition asciiLower :: "jschar \<Rightarrow> jschar" where
  "asciiLower c = (if 65 \<le> c \<and> c \<le> 90 then c + 32 else c)"

definition toLowerCase :: "(jsstring \<Rightarrow> jsstring) \<Rightarrow> jsstring \<Rightarrow> jsstring" where
  "toLowerCase lower s = (if list_all (\<lambda>c. c < 128) s then map asciiLower s else lower s)"

text \<open>\<open>String.prototype.includes\<close>: is \<open>q\<close> found at some position of \<open>s\<close>?\<close>

fun startsAt :: "jsstring \<Rightarrow> jsstring \<Rightarrow> bool" where
  "startsAt [] s = True"
| "startsAt (c # q) [] = False"
| "startsAt (c # q) (d # s) = (c = d \<and> startsAt q s)"

fun includes_str :: "jsstring \<Rightarrow> jsstring \<Rightarrow> bool" where
  "includes_str [] q = startsAt q []"
| "includes_str (c # s) q = (startsAt q (c # s) \<or> includes_str s q)"

text \<open>\<open>Array.prototype.some\<close> and \<open>Array.prototype.includes\<close>.\<close>

fun some :: "'a list \<Rightarrow> ('a \<Rightarrow> bool) \<Rightarrow> bool" where
  "some [] p = False"
| "some (x # xs) p = (p x \<or> some xs p)"

fun includes_arr :: "'a list \<Rightarrow> 'a \<Rightarrow> bool" where
  "includes_arr [] v = False"
| "includes_arr (x # xs) v = (x = v \<or> includes_arr xs v)"

text \<open>\<open>Array.prototype.filter\<close>.\<close>

fun filter_arr :: "'a list \<Rightarrow> ('a \<Rightarrow> bool) \<Rightarrow> 'a list" where
  "filter_arr [] p = []"
| "filter_arr (x # xs) p = (if p x then x # filter_arr xs p else filter_arr xs p)"


section \<open>The list filter\<close>

text \<open>
  \<open>interface Article\<close> of \<open>ArticleList.tsx\<close>, the type of the articles that the filter is
  given: the optional fields are \<open>None\<close> when undefined.
\<close>

record Article =
  slug :: jsstring
  title :: jsstring
  author :: jsstring
  date :: jsstring
  description :: jsstring
  tags :: "jsstring list option"
  category :: "jsstring option"
  image' :: "jsstring option"

text \<open>The filter of \<open>ArticleList\<close> in \<open>src/components/ArticleList.tsx\<close>.\<close>

definition matchesSearch :: "(jsstring \<Rightarrow> jsstring) \<Rightarrow> jsstring \<Rightarrow> Article \<Rightarrow> bool" where
  "matchesSearch lower search a \<longleftrightarrow>
     includes_str (toLowerCase lower (title a)) (toLowerCase lower search) \<or>
     includes_str (toLowerCase lower (description a)) (toLowerCase lower search) \<or>
     (case tags a of
        None \<Rightarrow> False
      | Some ts \<Rightarrow>
          some ts (\<lambda>tag. includes_str (toLowerCase lower tag) (toLowerCase lower search)))"

definition matchesTag :: "jsstring \<Rightarrow> Article \<Rightarrow> bool" where
  "matchesTag selectedTag a =
     (if selectedTag \<noteq> []
      then (case tags a of None \<Rightarrow> False | Some ts \<Rightarrow> includes_arr ts selectedTag)
      else True)"

definition matchesCategory :: "jsstring \<Rightarrow> Article \<Rightarrow> bool" where
  "matchesCategory selectedCategory a =
     (if selectedCategory \<noteq> [] then category a = Some selectedCategory else True)"

definition ArticleList ::
  "(jsstring \<Rightarrow> jsstring) \<Rightarrow> Article list \<Rightarrow> jsstring \<Rightarrow> jsstring \<Rightarrow> jsstring \<Rightarrow> Article list" where
  "ArticleList lower articles search selectedTag selectedCategory =
     filter_arr articles (\<lambda>a.
       matchesSearch lower search a \<and> matchesTag selectedTag a \<and>
       matchesCategory selectedCategory a)"

text \<open>
  The filter of the second \<open>ArticleList\<close>, the one that follows \<open>FilterModalManager\<close> and
  \<open>Header\<close> in \<open>src/components/FilterModalManager.tsx\<close>.
\<close>

definition matchesSearch2 :: "(jsstring \<Rightarrow> jsstring) \<Rightarrow> jsstring \<Rightarrow> Article \<Rightarrow> bool" where
  "matchesSearch2 lower search a \<longleftrightarrow>
     (let lowerSearch = toLowerCase lower search in
      search = [] \<or>
      includes_str (toLowerCase lower (title a)) lowerSearch \<or>
      includes_str (toLowerCase lower (description a)) lowerSearch)"

definition matchesTag2 :: "jsstring \<Rightarrow> Article \<Rightarrow> bool" where
  "matchesTag2 selectedTag a \<longleftrightarrow>
     selectedTag = [] \<or>
     selectedTag = js ''All Tags'' \<or>
     (case tags a of None \<Rightarrow> False | Some ts \<Rightarrow> includes_arr ts selectedTag)"

definition matchesCategory2 :: "jsstring \<Rightarrow> Article \<Rightarrow> bool" where
  "matchesCategory2 selectedCategory a \<longleftrightarrow>
     selectedCategory = [] \<or>
     selectedCategory = js ''All Categories'' \<or>
     category a = Some selectedCategory"

definition ArticleList2 ::
  "(jsstring \<Rightarrow> jsstring) \<Rightarrow> Article list \<Rightarrow> jsstring \<Rightarrow> jsstring \<Rightarrow> jsstring \<Rightarrow> Article list" where
  "ArticleList2 lower articles search selectedTag selectedCategory =
     filter_arr articles (\<lambda>a.
       matchesSearch2 lower search a \<and> matchesTag2 selectedTag a \<and>
       matchesCategory2 selectedCategory a)"

text \<open>
  Articles to filter: one that carries the tag \<open>Solana\<close> and has the word in neither
  title nor description, and one without tags.
\<close>

definition example_tagged :: Article where
  "example_tagged =
     \<lparr> slug = js ''rails'', title = js ''Payment rails'', author = js ''Research'',
       date = js ''2025-11-17'', description = js ''Settlement in seconds'',
       tags = Some [js ''DeFi'', js ''Solana''], category = Some (js ''Research''),
       image' = None \<rparr>"

definition example_untagged :: Article where
  "example_untagged =
     \<lparr> slug = js ''hello'', title = js ''Hello'', author = js ''ZendFi Team'',
       date = js ''2025-01-01'', description = js ''The first one'',
       tags = None, category = None, image' = None \<rparr>"


section \<open>Values of the front matter\<close>

text \<open>
  The \<open>data\<close> object of \<open>gray-matter\<close> is untyped: a field is whatever the YAML of the
  file makes it, a string when the value is quoted, a \<open>Date\<close> (its time value in
  milliseconds) for an unquoted date, a number, a boolean, null, a sequence or a
  mapping, and undefined when the key is missing.
\<close>

datatype jsval =
    JUndefined
  | JNull
  | JBool bool
  | JNum real
  | JInfinity bool
  | JNaN
  | JStr jsstring
  | JDate int
  | JArray "jsval list"
  | JObject "(jsstring \<times> jsval) list"

text \<open>The truthiness of a value, as \<open>||\<close> tests it.\<close>

fun truthy :: "jsval \<Rightarrow> bool" where
  "truthy JUndefined = False"
| "truthy JNull = False"
| "truthy (JBool b) = b"
| "truthy (JNum n) = (n \<noteq> 0)"
| "truthy (JInfinity s) = True"
| "truthy JNaN = False"
| "truthy (JStr s) = (s \<noteq> [])"
| "truthy (JDate t) = True"
| "truthy (JArray vs) = True"
| "truthy (JObject kvs) = True"

text \<open>\<open>value || undefined\<close>.\<close>

definition orUndefined :: "jsval \<Rightarrow> jsval" where
  "orUndefined v = (if truthy v then v else JUndefined)"

text \<open>
  \<open>x < y\<close>. Two strings are compared by their code units, a proper prefix being
  smaller. Otherwise both sides are turned into numbers, and the comparison is false
  when one of them is undefined or NaN, which are not numbers. For the operands that
  remain (null, booleans, numbers, dates, sequences, mappings, or a string against
  one of these) the result is what the conversions of the language give; it is the
  parameter \<open>otherLess\<close>.
\<close>

fun notANumber :: "jsval \<Rightarrow> bool" where
  "notANumber JUndefined = True"
| "notANumber JNaN = True"
| "notANumber v = False"

definition isLessThan :: "(jsval \<Rightarrow> jsval \<Rightarrow> bool) \<Rightarrow> jsval \<Rightarrow> jsval \<Rightarrow> bool" where
  "isLessThan otherLess x y =
     (case x of
        JStr a \<Rightarrow>
          (case y of
             JStr b \<Rightarrow> a < b
           | _ \<Rightarrow> if notANumber y then False else otherLess x y)
      | _ \<Rightarrow> if notANumber x \<or> notANumber y then False else otherLess x y)"


section \<open>The loader and the renderer\<close>

text \<open>
  What \<open>lib/markdown.ts\<close> sees of the outside world. Every call that can throw returns
  a sum, \<open>Inl\<close> being the exception. File names are relative to \<open>articlesDirectory\<close>.
\<close>

datatype error = FsError | ParseError | RenderError | RangeError | TypeError

record fs =
  existsSync :: bool
  readdirSync :: "error + jsstring list"
  readFileSync :: "jsstring \<Rightarrow> error + jsstring"

text \<open>The fields of \<open>data\<close> that the loader reads.\<close>

record frontmatter =
  fm_title :: jsval
  fm_author :: jsval
  fm_date :: jsval
  fm_description :: jsval
  fm_tags :: jsval
  fm_category :: jsval
  fm_image :: jsval

text \<open>
  \<open>matter(fileContents)\<close> gives \<open>{data, content}\<close> or throws; the \<open>unified\<close> pipeline
  \<open>process(content)\<close> gives the HTML or throws. Both are libraries, taken as
  parameters: the functions stand for what the library does at the call in question.
\<close>

type_synonym matter = "jsstring \<Rightarrow> error + (frontmatter \<times> jsstring)"
type_synonym process = "jsstring \<Rightarrow> error + jsstring"

text \<open>
  The records that the loader and the renderer return. They are declared as
  \<open>Omit<Article, 'content'>\<close> and \<open>Article\<close>, but the fields taken from \<open>data\<close> are
  copied as they are and hold whatever \<open>data\<close> holds; the slug and the content are
  strings.
\<close>

record summary =
  slug :: jsstring
  title :: jsval
  author :: jsval
  date :: jsval
  description :: jsval
  tags :: jsval
  category :: jsval
  image' :: jsval

record article = summary +
  content :: jsstring

text \<open>\<open>name.endsWith('.md')\<close> and \<open>name.replace(/\.md$/, '')\<close>.\<close>

definition endsWith :: "jsstring \<Rightarrow> jsstring \<Rightarrow> bool" where
  "endsWith s suf \<longleftrightarrow>
     length suf \<le> length s \<and> drop (length s - length suf) s = suf"

definition stripMd :: "jsstring \<Rightarrow> jsstring" where
  "stripMd name = (if endsWith name (js ''.md'') then take (length name - 3) name else name)"

text \<open>
  \<open>Array.prototype.map\<close> with a callback that can throw: the first exception, from the
  left, leaves the map.
\<close>

fun map_arr :: "'a list \<Rightarrow> ('a \<Rightarrow> error + 'b) \<Rightarrow> error + 'b list" where
  "map_arr [] f = Inr []"
| "map_arr (x # xs) f =
     (case f x of
        Inl e \<Rightarrow> Inl e
      | Inr y \<Rightarrow> (case map_arr xs f of Inl e \<Rightarrow> Inl e | Inr ys \<Rightarrow> Inr (y # ys)))"

text \<open>
  \<open>Array.prototype.sort(comparefn)\<close>, as an insertion sort that asks the comparator:
  each element, from the left, is put before the first element of the sorted part
  that it is to precede (\<open>comparefn(pivot, e) < 0\<close>). The language leaves the
  algorithm to the engine; where two elements are to precede each other, as two
  articles of the same date are under the comparator below, their order is the
  one of this algorithm.
\<close>

fun insert_sorted :: "('a \<Rightarrow> 'a \<Rightarrow> int) \<Rightarrow> 'a \<Rightarrow> 'a list \<Rightarrow> 'a list" where
  "insert_sorted comparefn pivot [] = [pivot]"
| "insert_sorted comparefn pivot (e # es) =
     (if comparefn pivot e < 0 then pivot # e # es
      else e # insert_sorted comparefn pivot es)"

definition sort_arr :: "'a list \<Rightarrow> ('a \<Rightarrow> 'a \<Rightarrow> int) \<Rightarrow> 'a list" where
  "sort_arr xs comparefn = foldl (\<lambda>sorted pivot. insert_sorted comparefn pivot sorted) [] xs"

text \<open>The comparator \<open>(a, b) => (a.date < b.date ? 1 : -1)\<close>.\<close>

definition byDate :: "(jsval \<Rightarrow> jsval \<Rightarrow> bool) \<Rightarrow> summary \<Rightarrow> summary \<Rightarrow> int" where
  "byDate otherLess a b = (if isLessThan otherLess (date a) (date b) then 1 else - 1)"

text \<open>The callback of \<open>.map\<close> in \<open>getAllArticles\<close>.\<close>

definition toSummary :: "matter \<Rightarrow> fs \<Rightarrow> jsstring \<Rightarrow> error + summary" where
  "toSummary matter fs name =
     (case readFileSync fs name of
        Inl e \<Rightarrow> Inl e
      | Inr fileContents \<Rightarrow>
          (case matter fileContents of
             Inl e \<Rightarrow> Inl e
           | Inr (data, body) \<Rightarrow>
               Inr \<lparr> slug = stripMd name,
                     title = fm_title data,
                     author = fm_author data,
                     date = fm_date data,
                     description = fm_description data,
                     tags = fm_tags data,
                     category = fm_category data,
                     image' = orUndefined (fm_image data) \<rparr>))"

definition getAllArticles ::
  "matter \<Rightarrow> (jsval \<Rightarrow> jsval \<Rightarrow> bool) \<Rightarrow> fs \<Rightarrow> error + summary list" where
  "getAllArticles matter otherLess fs =
     (if \<not> existsSync fs then Inr []
      else
        (case readdirSync fs of
           Inl e \<Rightarrow> Inl e
         | Inr fileNames \<Rightarrow>
             (case map_arr (filter_arr fileNames (\<lambda>name. endsWith name (js ''.md'')))
                           (toSummary matter fs) of
                Inl e \<Rightarrow> Inl e
              | Inr allArticles \<Rightarrow> Inr (sort_arr allArticles (byDate otherLess)))))"

text \<open>The body of the \<open>try\<close> of \<open>getArticleBySlug\<close>, and the function with its \<open>catch\<close>.\<close>

definition tryArticle :: "matter \<Rightarrow> process \<Rightarrow> fs \<Rightarrow> jsstring \<Rightarrow> error + article" where
  "tryArticle matter process fs slug' =
     (case readFileSync fs (slug' @ js ''.md'') of
        Inl e \<Rightarrow> Inl e
      | Inr fileContents \<Rightarrow>
          (case matter fileContents of
             Inl e \<Rightarrow> Inl e
           | Inr (data, content') \<Rightarrow>
               (case process content' of
                  Inl e \<Rightarrow> Inl e
                | Inr processedContent \<Rightarrow>
                    Inr \<lparr> slug = slug',
                          title = fm_title data,
                          author = fm_author data,
                          date = fm_date data,
                          description = fm_description data,
                          tags = fm_tags data,
                          category = fm_category data,
                          image' = orUndefined (fm_image data),
                          content = processedContent \<rparr>)))"

definition getArticleBySlug :: "matter \<Rightarrow> process \<Rightarrow> fs \<Rightarrow> jsstring \<Rightarrow> article option" where
  "getArticleBySlug matter process fs slug' =
     (case tryArticle matter process fs slug' of
        Inl e \<Rightarrow> None
      | Inr a \<Rightarrow> Some a)"


section \<open>The sitemap\<close>

record entry =
  url :: jsstring
  lastModified :: jsstring
  changeFrequency :: jsstring
  priority :: real

definition baseUrl :: jsstring where
  "baseUrl = js ''https://blog.zendfi.tech''"

text \<open>
  The class \<open>\s\<close> of a regular expression: tab, line feed, vertical tab, form feed,
  carriage return, space, no-break space (160), ogham space mark (5760), the spaces
  from en quad to hair space (8192 to 8202), line and paragraph separator (8232,
  8233), narrow no-break space (8239), medium mathematical space (8287),
  ideographic space (12288) and the byte order mark (65279). Then
  \<open>s.replace(/\s+/g, '-')\<close>: every maximal run of white space becomes one hyphen.
\<close>

definition isSpace :: "jschar \<Rightarrow> bool" where
  "isSpace c \<longleftrightarrow>
     (9 \<le> c \<and> c \<le> 13) \<or> c = 32 \<or> c = 160 \<or> c = 5760 \<or> (8192 \<le> c \<and> c \<le> 8202) \<or>
     c = 8232 \<or> c = 8233 \<or> c = 8239 \<or> c = 8287 \<or> c = 12288 \<or> c = 65279"

function hyphenate :: "jsstring \<Rightarrow> jsstring" where
  "hyphenate [] = []"
| "hyphenate (c # s) =
     (if isSpace c then 45 # hyphenate (dropWhile isSpace s)
      else c # hyphenate s)"
  by pat_completeness auto
termination
  by (relation "measure length") (auto simp: less_Suc_eq_le length_dropWhile_le)

text \<open>
  \<open>new Map(pairs)\<close> keeps its keys in the order of their first insertion, a later
  value replacing an earlier one under the same key; \<open>.values()\<close> lists the values in
  that order.
\<close>

fun Map_set :: "('k \<times> 'v) list \<Rightarrow> 'k \<Rightarrow> 'v \<Rightarrow> ('k \<times> 'v) list" where
  "Map_set [] k v = [(k, v)]"
| "Map_set ((k', v') # m) k v =
     (if k' = k then (k, v) # m else (k', v') # Map_set m k v)"

definition new_Map :: "('k \<times> 'v) list \<Rightarrow> ('k \<times> 'v) list" where
  "new_Map pairs = foldl (\<lambda>m (k, v). Map_set m k v) [] pairs"

definition Map_values :: "('k \<times> 'v) list \<Rightarrow> 'v list" where
  "Map_values m = map snd m"

text \<open>
  \<open>new Date(v).toISOString()\<close> throws a RangeError on an invalid date; it is a
  parameter, as is the current date.
\<close>

definition articlePage :: "(jsval \<Rightarrow> error + jsstring) \<Rightarrow> summary \<Rightarrow> error + entry" where
  "articlePage toISOString a =
     (case toISOString (date a) of
        Inl e \<Rightarrow> Inl e
      | Inr d \<Rightarrow>
          Inr \<lparr> url = baseUrl @ js ''/article/'' @ slug a,
                lastModified = d,
                changeFrequency = js ''monthly'',
                priority = 0.8 \<rparr>)"

text \<open>
  \<open>article.author.toLowerCase().replace(/\s+/g, '-')\<close>: the slug of the author, a
  TypeError when the author is not a string.
\<close>

definition authorSlug :: "(jsstring \<Rightarrow> jsstring) \<Rightarrow> jsval \<Rightarrow> error + jsstring" where
  "authorSlug lower v =
     (case v of
        JStr name \<Rightarrow> Inr (hyphenate (toLowerCase lower name))
      | _ \<Rightarrow> Inl TypeError)"

definition authorPage ::
  "(jsstring \<Rightarrow> jsstring) \<Rightarrow> (jsval \<Rightarrow> error + jsstring) \<Rightarrow> summary \<Rightarrow> error + entry" where
  "authorPage lower toISOString a =
     (case authorSlug lower (author a) of
        Inl e \<Rightarrow> Inl e
      | Inr s \<Rightarrow>
          (case toISOString (date a) of
             Inl e \<Rightarrow> Inl e
           | Inr d \<Rightarrow>
               Inr \<lparr> url = baseUrl @ js ''/author/'' @ s,
                     lastModified = d,
                     changeFrequency = js ''weekly'',
                     priority = 0.6 \<rparr>))"

definition sitemap ::
  "matter \<Rightarrow> (jsval \<Rightarrow> jsval \<Rightarrow> bool) \<Rightarrow> (jsstring \<Rightarrow> jsstring) \<Rightarrow>
   (jsval \<Rightarrow> error + jsstring) \<Rightarrow> jsstring \<Rightarrow> fs \<Rightarrow> error + entry list" where
  "sitemap matter otherLess lower toISOString currentDate fs =
     (case getAllArticles matter otherLess fs of
        Inl e \<Rightarrow> Inl e
      | Inr articles \<Rightarrow>
          (let staticPages =
                 [\<lparr> url = baseUrl, lastModified = currentDate,
                    changeFrequency = js ''daily'', priority = 1 \<rparr>]
           in case map_arr articles (articlePage toISOString) of
                Inl e \<Rightarrow> Inl e
              | Inr articlePages \<Rightarrow>
                  (case map_arr articles (authorPage lower toISOString) of
                     Inl e \<Rightarrow> Inl e
                   | Inr authorPages \<Rightarrow>
                       (let uniqueAuthorPages =
                              Map_values (new_Map (map (\<lambda>page. (url page, page)) authorPages))
                        in Inr (staticPages @ articlePages @ uniqueAuthorPages)))))"


section \<open>Sorted by date\<close>

text \<open>
  Newest first, for articles whose dates are strings: every article is at least as
  recent as the ones after it.
\<close>

definition dateKey :: "summary \<Rightarrow> jsstring" where
  "dateKey a = (case date a of JStr d \<Rightarrow> d | _ \<Rightarrow> [])"

abbreviation newer_first :: "summary list \<Rightarrow> bool" where
  "newer_first \<equiv> sorted_wrt (\<lambda>a b. dateKey b \<le> dateKey a)"


section \<open>Example inputs\<close>

text \<open>
  A content directory with two articles and a file that is not Markdown; a second one
  with a file whose front matter does not parse and one with an empty body; a third
  one with two articles by the same author, whose name is written with a no-break
  space (160) in one of them; a fourth one with an article that has no date. The
  stand-ins for the libraries: \<open>example_matter\<close> knows the contents of these files,
  \<open>example_process\<close> fails on an empty body, \<open>example_toISOString\<close> accepts the date
  strings of ten characters, \<open>example_lower\<close> lower-cases the ASCII letters of a
  string and leaves its other characters, \<open>example_otherLess\<close> is never consulted on
  these inputs.
\<close>

definition example_fm_january :: frontmatter where
  "example_fm_january =
     \<lparr> fm_title = JStr (js ''January''), fm_author = JStr (js ''ZendFi Team''),
       fm_date = JStr (js ''2025-01-01''), fm_description = JStr (js ''The first one''),
       fm_tags = JUndefined, fm_category = JUndefined, fm_image = JStr [] \<rparr>"

definition example_fm_june :: frontmatter where
  "example_fm_june =
     \<lparr> fm_title = JStr (js ''June''), fm_author = JStr (js ''Blessed  Tosin Oyinbo''),
       fm_date = JStr (js ''2025-06-01''), fm_description = JStr (js ''The second one''),
       fm_tags = JArray [JStr (js ''DeFi''), JStr (js ''Solana'')],
       fm_category = JStr (js ''Research''),
       fm_image = JStr (js ''/images/june.png'') \<rparr>"

definition example_fm_july :: frontmatter where
  "example_fm_july =
     \<lparr> fm_title = JStr (js ''July''), fm_author = JStr (js ''ZENDFI'' @ [160] @ js ''Team''),
       fm_date = JStr (js ''2025-07-04''), fm_description = JStr (js ''The third one''),
       fm_tags = JArray [JStr (js ''payments'')], fm_category = JStr (js ''Blog''),
       fm_image = JUndefined \<rparr>"

definition example_fm_draft :: frontmatter where
  "example_fm_draft =
     \<lparr> fm_title = JStr (js ''Draft''), fm_author = JStr (js ''ZendFi Team''),
       fm_date = JUndefined, fm_description = JStr (js ''Not dated yet''),
       fm_tags = JUndefined, fm_category = JUndefined, fm_image = JUndefined \<rparr>"

definition example_matter :: matter where
  "example_matter fileContents =
     (if fileContents = js ''jan'' then Inr (example_fm_january, js ''# January'')
      else if fileContents = js ''june'' then Inr (example_fm_june, js ''# June'')
      else if fileContents = js ''july'' then Inr (example_fm_july, js ''# July'')
      else if fileContents = js ''draft'' then Inr (example_fm_draft, js ''# Draft'')
      else if fileContents = js ''empty'' then Inr (example_fm_june, [])
      else Inl ParseError)"



definition example_process :: process where
  "example_process body =
     (if body = [] then Inl RenderError else Inr (js ''<p>'' @ body @ js ''</p>''))"

definition example_toISOString :: "jsval \<Rightarrow> error + jsstring" where
  "example_toISOString v =
     (case v of
        JStr d \<Rightarrow> if length d = 10 then Inr (d @ js ''T00:00:00.000Z'') else Inl RangeError
      | _ \<Rightarrow> Inl RangeError)"

definition example_lower :: "jsstring \<Rightarrow> jsstring" where
  "example_lower s = map asciiLower s"

definition example_otherLess :: "jsval \<Rightarrow> jsval \<Rightarrow> bool" where
  "example_otherLess x y = False"

definition example_fs :: fs where
  "example_fs =
     \<lparr> existsSync = True,
       readdirSync = Inr [js ''jan.md'', js ''notes.txt'', js ''june.md''],
       readFileSync = (\<lambda>name.
         if name = js ''jan.md'' then Inr (js ''jan'')
         else if name = js ''june.md'' then Inr (js ''june'')
         else if name = js ''notes.txt'' then Inr (js ''notes'')
         else Inl FsError) \<rparr>"

definition example_fs_broken :: fs where
  "example_fs_broken =
     \<lparr> existsSync = True,
       readdirSync = Inr [js ''jan.md'', js ''broken.md'', js ''empty.md''],
       readFileSync = (\<lambda>name.
         if name = js ''jan.md'' then Inr (js ''jan'')
         else if name = js ''broken.md'' then Inr (js ''broken'')
         else if name = js ''empty.md'' then Inr (js ''empty'')
         else Inl FsError) \<rparr>"

definition example_fs_authors :: fs where
  "example_fs_authors =
     \<lparr> existsSync = True,
       readdirSync = Inr [js ''jan.md'', js ''june.md'', js ''july.md''],
       readFileSync = (\<lambda>name.
         if name = js ''jan.md'' then Inr (js ''jan'')
         else if name = js ''june.md'' then Inr (js ''june'')
         else if name = js ''july.md'' then Inr (js ''july'')
         else Inl FsError) \<rparr>"

definition example_fs_undated :: fs where
  "example_fs_undated =
     \<lparr> existsSync = True,
       readdirSync = Inr [js ''a-june.md'', js ''b-draft.md'', js ''c-jan.md''],
       readFileSync = (\<lambda>name.
         if name = js ''a-june.md'' then Inr (js ''june'')
         else if name = js ''b-draft.md'' then Inr (js ''draft'')
         else if name = js ''c-jan.md'' then Inr (js ''jan'')
         else Inl FsError) \<rparr>"

definition example_january :: summary where
  "example_january =
     \<lparr> slug = js ''jan'', title = JStr (js ''January''), author = JStr (js ''ZendFi Team''),
       date = JStr (js ''2025-01-01''), description = JStr (js ''The first one''),
       tags = JUndefined, category = JUndefined, image' = JUndefined \<rparr>"

definition example_june :: summary where
  "example_june =
     \<lparr> slug = js ''june'', title = JStr (js ''June''),
       author = JStr (js ''Blessed  Tosin Oyinbo''),
       date = JStr (js ''2025-06-01''), description = JStr (js ''The second one''),
       tags = JArray [JStr (js ''DeFi''), JStr (js ''Solana'')],
       category = JStr (js ''Research''),
       image' = JStr (js ''/images/june.png'') \<rparr>"

definition example_july :: summary where
  "example_july =
     \<lparr> slug = js ''july'', title = JStr (js ''July''),
       author = JStr (js ''ZENDFI'' @ [160] @ js ''Team''),
       date = JStr (js ''2025-07-04''), description = JStr (js ''The third one''),
       tags = JArray [JStr (js ''payments'')], category = JStr (js ''Blog''),
       image' = JUndefined \<rparr>"

definition example_draft :: summary where
  "example_draft =
     \<lparr> slug = js ''draft'', title = JStr (js ''Draft''), author = JStr (js ''ZendFi Team''),
       date = JUndefined, description = JStr (js ''Not dated yet''),
       tags = JUndefined, category = JUndefined, image' = JUndefined \<rparr>"

definition example_entries :: "entry list" where
  "example_entries =
     projr (sitemap example_matter example_otherLess example_lower example_toISOString
              (js ''2026-01-01T00:00:00.000Z'') example_fs_authors)"


section \<open>Facts about strings and arrays\<close>

lemma length_js [simp]: "length (js s) = length s"
  by (simp add: js_def)

lemma js_eq_Nil [simp]: "js s = [] \<longleftrightarrow> s = []"
  by (simp add: js_def)

lemma startsAt_prefix: "startsAt q s \<longleftrightarrow> prefix q s"
  by (induction q s rule: startsAt.induct) simp_all

lemma includes_sublist: "includes_str s q \<longleftrightarrow> sublist q s"
proof (induction s)
  case Nil
  show ?case by (simp add: startsAt_prefix)
next
  case (Cons c s)
  then show ?case by (simp add: startsAt_prefix sublist_Cons_right)
qed

lemma includes_Nil [simp]: "includes_str s []"
  by (simp add: includes_sublist)

lemma includes_arr_set: "includes_arr xs v \<longleftrightarrow> v \<in> set xs"
  by (induction xs) auto

lemma filter_arr_filter: "filter_arr xs p = filter p xs"
  by (induction xs) simp_all

lemma filter_arr_all: "(\<And>x. x \<in> set xs \<Longrightarrow> p x) \<Longrightarrow> filter_arr xs p = xs"
  by (induction xs) simp_all

lemma toLowerCase_Nil [simp]: "toLowerCase lower [] = []"
  by (simp add: toLowerCase_def)


section \<open>Properties of the list filter\<close>

text \<open>
  C7. Filtering with the empty query and the ``All'' selectors, which are the empty
  strings, gives back the list of articles as it is, the same articles in the same
  order. This holds for the filter of \<open>ArticleList.tsx\<close> and for the second one.
\<close>

theorem filter_all_selectors_identity:
  "ArticleList lower articles [] [] [] = articles \<and>
   ArticleList2 lower articles [] [] [] = articles"
proof
  show "ArticleList lower articles [] [] [] = articles"
    unfolding ArticleList_def
    by (rule filter_arr_all) (simp add: matchesSearch_def matchesTag_def matchesCategory_def)
  show "ArticleList2 lower articles [] [] [] = articles"
    unfolding ArticleList2_def
    by (rule filter_arr_all) (simp add: matchesSearch2_def matchesTag2_def matchesCategory2_def)
qed

theorem filter_all_selectors_identity_witness:
  "ArticleList example_lower [example_tagged, example_untagged] [] [] []
     = [example_tagged, example_untagged] \<and>
   ArticleList2 example_lower [example_tagged, example_untagged] [] [] []
     = [example_tagged, example_untagged]"
  using filter_all_selectors_identity [of example_lower "[example_tagged, example_untagged]"]
  by simp

text \<open>
  C1. An article with the tag \<open>Solana\<close> matches the query \<open>solana\<close>: the filter of
  \<open>ArticleList.tsx\<close> returns it. The second \<open>ArticleList\<close>, given the same article and
  the same query, returns nothing: it looks for the query in the title and in the
  description and not in the tags.
\<close>

theorem copy_drops_tag_match:
  "ArticleList lower [example_tagged] (js ''solana'') [] [] = [example_tagged] \<and>
   ArticleList2 lower [example_tagged] (js ''solana'') [] [] = []"
  by code_simp


section \<open>Facts about the loader\<close>

lemma map_arr_Inr_iff: "map_arr xs f = Inr ys \<longleftrightarrow> map f xs = map Inr ys"
proof (induction xs arbitrary: ys)
  case Nil
  show ?case by (cases ys) simp_all
next
  case (Cons x xs)
  have "map_arr (x # xs) f = Inr ys \<longleftrightarrow>
        (\<exists>y ys'. ys = y # ys' \<and> f x = Inr y \<and> map_arr xs f = Inr ys')"
    by (cases "f x"; cases "map_arr xs f") auto
  also have "\<dots> \<longleftrightarrow> (\<exists>y ys'. ys = y # ys' \<and> f x = Inr y \<and> map f xs = map Inr ys')"
    by (simp only: Cons.IH)
  also have "\<dots> \<longleftrightarrow> map f (x # xs) = map Inr ys"
    by (cases ys) auto
  finally show ?case .
qed

lemma map_arr_total:
  "(\<And>x. x \<in> set xs \<Longrightarrow> \<exists>y. f x = Inr y) \<Longrightarrow> \<exists>ys. map_arr xs f = Inr ys"
proof (induction xs)
  case Nil
  show ?case by simp
next
  case (Cons x xs)
  have "\<exists>y. f x = Inr y"
    by (rule Cons.prems) simp
  then obtain y where y: "f x = Inr y" ..
  have "\<exists>ys. map_arr xs f = Inr ys"
    by (rule Cons.IH, rule Cons.prems) simp
  then obtain ys where "map_arr xs f = Inr ys" ..
  with y show ?case by simp
qed

lemma map_arr_Inl:
  assumes "x \<in> set xs" and "f x = Inl e"
  shows "\<exists>e'. map_arr xs f = Inl e'"
proof (cases "map_arr xs f")
  case (Inl e')
  then show ?thesis by blast
next
  case (Inr ys)
  then have eq: "map f xs = map Inr ys" by (simp add: map_arr_Inr_iff)
  from assms(1) have "f x \<in> set (map f xs)" by simp
  with eq have "f x \<in> set (map Inr ys)" by simp
  with assms(2) have False by auto
  then show ?thesis ..
qed

lemma map_arr_success:
  assumes "map_arr xs f = Inr ys" and "x \<in> set xs"
  shows "\<exists>y. f x = Inr y \<and> y \<in> set ys"
proof -
  from assms(1) have eq: "map f xs = map Inr ys" by (simp add: map_arr_Inr_iff)
  from assms(2) have "f x \<in> set (map f xs)" by simp
  with eq have "f x \<in> set (map Inr ys)" by simp
  then show ?thesis by auto
qed

lemma map_arr_member:
  assumes "map_arr xs f = Inr ys" and "x \<in> set xs" and "f x = Inr y"
  shows "y \<in> set ys"
  using map_arr_success [OF assms(1,2)] assms(3) by auto

lemma map_arr_map:
  assumes "map_arr xs f = Inr ys" and "\<And>x y. f x = Inr y \<Longrightarrow> g y = h x"
  shows "map g ys = map h xs"
  using assms
proof (induction xs arbitrary: ys)
  case Nil
  then show ?case by simp
next
  case (Cons x xs)
  then show ?case by (auto split: sum.splits)
qed

lemma mset_insert_sorted: "mset (insert_sorted c x xs) = add_mset x (mset xs)"
  by (induction xs) simp_all

lemma mset_foldl_insert_sorted:
  "mset (foldl (\<lambda>sorted pivot. insert_sorted c pivot sorted) acc xs) = mset acc + mset xs"
  by (induction xs arbitrary: acc) (simp_all add: mset_insert_sorted)

lemma mset_sort_arr: "mset (sort_arr xs c) = mset xs"
  by (simp add: sort_arr_def mset_foldl_insert_sorted)

lemma set_sort_arr: "set (sort_arr xs c) = set xs"
proof -
  have "set_mset (mset (sort_arr xs c)) = set_mset (mset xs)"
    by (simp only: mset_sort_arr)
  then show ?thesis by simp
qed

lemma set_insert_sorted: "set (insert_sorted c x xs) = insert x (set xs)"
  by (induction xs) auto

lemma byDate_strings:
  assumes "date x = JStr d" and "date e = JStr d'"
  shows "byDate otherLess x e < 0 \<longleftrightarrow> \<not> dateKey x < dateKey e"
  using assms by (simp add: byDate_def isLessThan_def dateKey_def)

lemma newer_first_insert_sorted:
  assumes "\<exists>d. date x = JStr d" and "\<forall>e\<in>set xs. \<exists>d. date e = JStr d"
    and "newer_first xs"
  shows "newer_first (insert_sorted (byDate otherLess) x xs)"
  using assms(2,3)
proof (induction xs)
  case Nil
  show ?case by simp
next
  case (Cons e es)
  from assms(1) obtain d where d: "date x = JStr d" ..
  from Cons.prems(1) obtain d' where d': "date e = JStr d'" by auto
  note cmp = byDate_strings [OF d d', of otherLess]
  show ?case
  proof (cases "dateKey x < dateKey e")
    case True
    with Cons cmp show ?thesis
      by (auto simp: set_insert_sorted)
  next
    case False
    then have "dateKey e \<le> dateKey x" by simp
    with Cons.prems False cmp show ?thesis
      by (auto intro: order_trans)
  qed
qed

lemma newer_first_foldl:
  assumes "\<forall>e\<in>set xs. \<exists>d. date e = JStr d" and "\<forall>e\<in>set acc. \<exists>d. date e = JStr d"
    and "newer_first acc"
  shows "newer_first (foldl (\<lambda>sorted pivot. insert_sorted (byDate otherLess) pivot sorted) acc xs)"
  using assms
proof (induction xs arbitrary: acc)
  case Nil
  then show ?case by simp
next
  case (Cons x xs)
  from Cons.prems have "newer_first (insert_sorted (byDate otherLess) x acc)"
    by (intro newer_first_insert_sorted) simp_all
  moreover from Cons.prems
  have "\<forall>e\<in>set (insert_sorted (byDate otherLess) x acc). \<exists>d. date e = JStr d"
    by (simp add: set_insert_sorted)
  moreover from Cons.prems have "\<forall>e\<in>set xs. \<exists>d. date e = JStr d" by simp
  ultimately have "newer_first
      (foldl (\<lambda>sorted pivot. insert_sorted (byDate otherLess) pivot sorted)
         (insert_sorted (byDate otherLess) x acc) xs)"
    by (intro Cons.IH)
  then show ?case by simp
qed

lemma newer_first_sort_arr:
  "\<forall>e\<in>set xs. \<exists>d. date e = JStr d \<Longrightarrow> newer_first (sort_arr xs (byDate otherLess))"
  unfolding sort_arr_def by (rule newer_first_foldl) simp_all

lemma getAllArticles_Inr:
  assumes "getAllArticles matter otherLess fs = Inr articles" and "existsSync fs"
  obtains fileNames allArticles where
    "readdirSync fs = Inr fileNames"
    "map_arr (filter_arr fileNames (\<lambda>name. endsWith name (js ''.md''))) (toSummary matter fs)
       = Inr allArticles"
    "articles = sort_arr allArticles (byDate otherLess)"
  using assms by (auto simp: getAllArticles_def split: sum.splits)

lemma getAllArticles_newer_first:
  assumes "getAllArticles matter otherLess fs = Inr articles"
    and "\<forall>a\<in>set articles. \<exists>d. date a = JStr d"
  shows "newer_first articles"
proof (cases "existsSync fs")
  case False
  with assms(1) show ?thesis by (simp add: getAllArticles_def)
next
  case True
  with assms(1) obtain allArticles where
    sorted: "articles = sort_arr allArticles (byDate otherLess)"
    by (rule getAllArticles_Inr)
  with assms(2) have "\<forall>a\<in>set allArticles. \<exists>d. date a = JStr d"
    by (simp add: set_sort_arr)
  then have "newer_first (sort_arr allArticles (byDate otherLess))"
    by (rule newer_first_sort_arr)
  with sorted show ?thesis by simp
qed

lemma toSummary_slug: "toSummary matter fs name = Inr a \<Longrightarrow> slug a = stripMd name"
  by (auto simp: toSummary_def split: sum.splits prod.splits)

lemma toSummary_image:
  assumes "readFileSync fs name = Inr c" and "matter c = Inr (d, body)"
  shows "\<exists>a. toSummary matter fs name = Inr a \<and> slug a = stripMd name \<and>
             image' a = orUndefined (fm_image d)"
  using assms by (simp add: toSummary_def)

lemma endsWith_md: "endsWith name (js ''.md'') \<Longrightarrow> name = stripMd name @ js ''.md''"
proof -
  assume h: "endsWith name (js ''.md'')"
  then have "drop (length name - 3) name = js ''.md''"
    by (simp add: endsWith_def numeral_3_eq_3)
  moreover have "take (length name - 3) name @ drop (length name - 3) name = name"
    by (rule append_take_drop_id)
  ultimately have "take (length name - 3) name @ js ''.md'' = name"
    by simp
  with h show ?thesis by (simp add: stripMd_def)
qed

lemma stripMd_inj: "inj_on stripMd {name. endsWith name (js ''.md'')}"
proof (rule inj_onI)
  fix a b
  assume a: "a \<in> {name. endsWith name (js ''.md'')}"
    and b: "b \<in> {name. endsWith name (js ''.md'')}"
    and eq: "stripMd a = stripMd b"
  have "a = stripMd a @ js ''.md''"
    by (rule endsWith_md) (use a in simp)
  moreover have "b = stripMd b @ js ''.md''"
    by (rule endsWith_md) (use b in simp)
  ultimately show "a = b" using eq by simp
qed

lemma getAllArticles_slugs:
  assumes "getAllArticles matter otherLess fs = Inr articles" and "existsSync fs"
    and "readdirSync fs = Inr fileNames"
  shows "mset (map slug articles)
           = mset (map stripMd (filter (\<lambda>name. endsWith name (js ''.md'')) fileNames))"
proof -
  let ?md = "filter (\<lambda>name. endsWith name (js ''.md'')) fileNames"
  from assms(1,2) obtain fileNames' allArticles where
    rd: "readdirSync fs = Inr fileNames'"
    and all: "map_arr (filter_arr fileNames' (\<lambda>name. endsWith name (js ''.md'')))
                (toSummary matter fs) = Inr allArticles"
    and sorted: "articles = sort_arr allArticles (byDate otherLess)"
    by (rule getAllArticles_Inr)
  from rd assms(3) have "fileNames' = fileNames" by simp
  with all have "map_arr ?md (toSummary matter fs) = Inr allArticles"
    by (simp add: filter_arr_filter)
  then have slugs: "map slug allArticles = map stripMd ?md"
    by (rule map_arr_map) (rule toSummary_slug)
  have "mset (map slug articles)
          = image_mset slug (mset (sort_arr allArticles (byDate otherLess)))"
    by (simp add: sorted)
  also have "\<dots> = image_mset slug (mset allArticles)"
    by (simp only: mset_sort_arr)
  also have "\<dots> = mset (map stripMd ?md)"
    by (simp add: slugs [symmetric])
  finally show ?thesis .
qed

lemma distinct_stripMd:
  assumes "distinct fileNames"
  shows "distinct (map stripMd (filter (\<lambda>name. endsWith name (js ''.md'')) fileNames))"
proof -
  let ?md = "filter (\<lambda>name. endsWith name (js ''.md'')) fileNames"
  from assms have "distinct ?md" by simp
  moreover have "inj_on stripMd (set ?md)"
    by (rule inj_on_subset [OF stripMd_inj]) auto
  ultimately show ?thesis
    by (simp add: distinct_map)
qed

lemma getAllArticles_distinct_slugs:
  assumes "getAllArticles matter otherLess fs = Inr articles"
    and "\<forall>fileNames. readdirSync fs = Inr fileNames \<longrightarrow> distinct fileNames"
  shows "distinct (map slug articles)"
proof (cases "existsSync fs")
  case False
  with assms(1) show ?thesis by (simp add: getAllArticles_def)
next
  case True
  with assms(1) obtain fileNames where rd: "readdirSync fs = Inr fileNames"
    by (rule getAllArticles_Inr)
  with assms(2) have "distinct fileNames" by simp
  then have "distinct (map stripMd (filter (\<lambda>name. endsWith name (js ''.md'')) fileNames))"
    by (rule distinct_stripMd)
  moreover from assms(1) True rd have
    "mset (map slug articles)
       = mset (map stripMd (filter (\<lambda>name. endsWith name (js ''.md'')) fileNames))"
    by (rule getAllArticles_slugs)
  then have "distinct (map slug articles)
       \<longleftrightarrow> distinct (map stripMd (filter (\<lambda>name. endsWith name (js ''.md'')) fileNames))"
    by (rule mset_eq_imp_distinct_iff)
  ultimately show ?thesis by simp
qed

lemma count_list_distinct: "distinct xs \<Longrightarrow> x \<in> set xs \<Longrightarrow> count_list xs x = 1"
  by (induction xs) (auto simp: count_list_0_iff)

lemma example_loader:
  "getAllArticles example_matter otherLess example_fs = Inr [example_june, example_january]"
  by code_simp

lemma example_loader_broken:
  "getAllArticles example_matter otherLess example_fs_broken = Inl ParseError"
  by code_simp


section \<open>Properties of the loader\<close>

text \<open>
  C5. When the content directory does not exist, \<open>getAllArticles\<close> returns the empty
  list and raises nothing.
\<close>

theorem missing_directory_gives_empty_list:
  "\<not> existsSync fs \<Longrightarrow> getAllArticles matter otherLess fs = Inr []"
  by (simp add: getAllArticles_def)

theorem missing_directory_gives_empty_list_witness:
  "\<not> existsSync (example_fs\<lparr>existsSync := False\<rparr>) \<and>
   getAllArticles example_matter example_otherLess (example_fs\<lparr>existsSync := False\<rparr>) = Inr []"
  using missing_directory_gives_empty_list
    [of "example_fs\<lparr>existsSync := False\<rparr>" example_matter example_otherLess]
  by simp

text \<open>
  C3, as amended. When the date of every article that \<open>getAllArticles\<close> returns is a
  string, the list is sorted by date, newest first: for all adjacent positions \<open>i\<close>
  and \<open>i + 1\<close> the date string at \<open>i\<close> is greater than or equal to the one at
  \<open>i + 1\<close>.
\<close>

theorem loader_sorted_by_date:
  assumes "getAllArticles matter otherLess fs = Inr articles"
    and "\<forall>a\<in>set articles. \<exists>d. date a = JStr d"
  shows "\<forall>i. Suc i < length articles \<longrightarrow>
           (\<exists>d e. date (articles ! i) = JStr d \<and> date (articles ! Suc i) = JStr e \<and> e \<le> d)"
proof (intro allI impI)
  fix i
  assume i: "Suc i < length articles"
  from assms have "newer_first articles"
    by (rule getAllArticles_newer_first)
  moreover have "i < Suc i" by simp
  ultimately have le: "dateKey (articles ! Suc i) \<le> dateKey (articles ! i)"
    using i by (rule sorted_wrt_nth_less)
  from i have "articles ! i \<in> set articles" and "articles ! Suc i \<in> set articles"
    by simp_all
  with assms(2) obtain d e where
    d: "date (articles ! i) = JStr d" and e: "date (articles ! Suc i) = JStr e"
    by blast
  with le have "e \<le> d" by (simp add: dateKey_def)
  with d e show "\<exists>d e. date (articles ! i) = JStr d \<and> date (articles ! Suc i) = JStr e \<and> e \<le> d"
    by blast
qed

theorem loader_sorted_by_date_witness:
  "getAllArticles example_matter example_otherLess example_fs
     = Inr [example_june, example_january] \<and>
   date example_june = JStr (js ''2025-06-01'') \<and>
   date example_january = JStr (js ''2025-01-01'') \<and>
   js ''2025-01-01'' \<le> js ''2025-06-01''"
proof -
  have dates: "date example_june = JStr (js ''2025-06-01'')"
    "date example_january = JStr (js ''2025-01-01'')"
    by (simp_all add: example_june_def example_january_def)
  then have strings: "\<forall>a\<in>set [example_june, example_january]. \<exists>d. date a = JStr d"
    by simp
  have "Suc 0 < length [example_june, example_january] \<longrightarrow>
        (\<exists>d e. date ([example_june, example_january] ! 0) = JStr d \<and>
               date ([example_june, example_january] ! Suc 0) = JStr e \<and> e \<le> d)"
    using loader_sorted_by_date [OF example_loader [of example_otherLess] strings]
    by (rule spec)
  with dates have "js ''2025-01-01'' \<le> js ''2025-06-01''" by simp
  with dates example_loader [of example_otherLess] show ?thesis by simp
qed

text \<open>
  The claim C3 fails for a directory in which an article has no date: with
  \<open>a-june.md\<close> of June, \<open>b-draft.md\<close> without a date and \<open>c-jan.md\<close> of January, the
  comparison with the missing date is false both ways, and the list that is
  returned has the article of January before the one of June.
\<close>

theorem loader_unsorted_without_date_counterexample:
  "getAllArticles example_matter example_otherLess example_fs_undated
     = Inr [example_january\<lparr>slug := js ''c-jan''\<rparr>,
            example_draft\<lparr>slug := js ''b-draft''\<rparr>,
            example_june\<lparr>slug := js ''a-june''\<rparr>] \<and>
   date (example_january\<lparr>slug := js ''c-jan''\<rparr>) = JStr (js ''2025-01-01'') \<and>
   date (example_draft\<lparr>slug := js ''b-draft''\<rparr>) = JUndefined \<and>
   date (example_june\<lparr>slug := js ''a-june''\<rparr>) = JStr (js ''2025-06-01'') \<and>
   js ''2025-01-01'' < js ''2025-06-01''"
  by code_simp

text \<open>
  C6, as amended. When the directory exists, its file names are distinct and every file
  whose name ends in \<open>.md\<close> can be read and parsed, \<open>getAllArticles\<close> returns a list
  with exactly one summary for each such file, its slug being the file name without
  the \<open>.md\<close>; the other files yield nothing, and the slugs are pairwise distinct.
\<close>

theorem loader_one_summary_per_md_file:
  assumes ex: "existsSync fs"
    and rd: "readdirSync fs = Inr fileNames"
    and dist: "distinct fileNames"
    and ok: "\<forall>name\<in>set fileNames. endsWith name (js ''.md'') \<longrightarrow>
               (\<exists>c d body. readFileSync fs name = Inr c \<and> matter c = Inr (d, body))"
  shows "\<exists>articles.
           getAllArticles matter otherLess fs = Inr articles \<and>
           mset (map slug articles)
             = mset (map stripMd (filter (\<lambda>name. endsWith name (js ''.md'')) fileNames)) \<and>
           (\<forall>name\<in>set fileNames. endsWith name (js ''.md'') \<longrightarrow>
              count_list (map slug articles) (stripMd name) = 1) \<and>
           length articles = length (filter (\<lambda>name. endsWith name (js ''.md'')) fileNames) \<and>
           distinct (map slug articles)"
proof -
  let ?md = "filter (\<lambda>name. endsWith name (js ''.md'')) fileNames"
  have "\<exists>a. toSummary matter fs name = Inr a" if "name \<in> set ?md" for name
  proof -
    from that ok have "\<exists>c d body. readFileSync fs name = Inr c \<and> matter c = Inr (d, body)"
      by simp
    then obtain c d body where
      "readFileSync fs name = Inr c" "matter c = Inr (d, body)"
      by (elim exE conjE)
    then have "\<exists>a. toSummary matter fs name = Inr a \<and> slug a = stripMd name \<and>
             image' a = orUndefined (fm_image d)"
      by (rule toSummary_image)
    then show ?thesis by (elim exE conjE) (rule exI)
  qed
  then have "\<exists>ys. map_arr ?md (toSummary matter fs) = Inr ys"
    by (rule map_arr_total)
  then obtain allArticles where all: "map_arr ?md (toSummary matter fs) = Inr allArticles" ..
  let ?articles = "sort_arr allArticles (byDate otherLess)"
  from ex rd all have res: "getAllArticles matter otherLess fs = Inr ?articles"
    by (simp add: getAllArticles_def filter_arr_filter)
  from res ex rd have ms: "mset (map slug ?articles) = mset (map stripMd ?md)"
    by (rule getAllArticles_slugs)
  from dist have dmd: "distinct (map stripMd ?md)"
    by (rule distinct_stripMd)
  from ms have "distinct (map slug ?articles) \<longleftrightarrow> distinct (map stripMd ?md)"
    by (rule mset_eq_imp_distinct_iff)
  with dmd have ds: "distinct (map slug ?articles)" by simp
  have one: "count_list (map slug ?articles) (stripMd name) = 1"
    if "name \<in> set fileNames" "endsWith name (js ''.md'')" for name
  proof -
    from that have "stripMd name \<in> set (map stripMd ?md)" by simp
    moreover from ms have "set (map slug ?articles) = set (map stripMd ?md)"
      by (rule mset_eq_setD)
    ultimately have "stripMd name \<in> set (map slug ?articles)"
      by simp
    with ds show ?thesis by (rule count_list_distinct)
  qed
  from ms have "length (map slug ?articles) = length (map stripMd ?md)"
    by (rule mset_eq_length)
  then have len: "length ?articles = length ?md" by simp
  show ?thesis
  proof (intro exI [of _ ?articles] conjI ballI impI)
    show "getAllArticles matter otherLess fs = Inr ?articles" by (rule res)
    show "mset (map slug ?articles) = mset (map stripMd ?md)" by (rule ms)
    show "count_list (map slug ?articles) (stripMd name) = 1"
      if "name \<in> set fileNames" "endsWith name (js ''.md'')" for name
      using that by (rule one)
    show "length ?articles = length ?md" by (rule len)
    show "distinct (map slug ?articles)" by (rule ds)
  qed
qed

theorem loader_one_summary_per_md_file_witness:
  "existsSync example_fs \<and>
   readdirSync example_fs = Inr [js ''jan.md'', js ''notes.txt'', js ''june.md''] \<and>
   (\<exists>articles.
      getAllArticles example_matter example_otherLess example_fs = Inr articles \<and>
      mset (map slug articles) = mset [js ''jan'', js ''june''] \<and>
      count_list (map slug articles) (js ''jan'') = 1 \<and>
      count_list (map slug articles) (js ''june'') = 1 \<and>
      length articles = 2 \<and>
      distinct (map slug articles))"
proof -
  let ?names = "[js ''jan.md'', js ''notes.txt'', js ''june.md'']"
  have 1: "existsSync example_fs"
    and 2: "readdirSync example_fs = Inr ?names"
    by (simp_all add: example_fs_def)
  have 3: "distinct ?names"
    by code_simp
  have e: "endsWith (js ''jan.md'') (js ''.md'')" "\<not> endsWith (js ''notes.txt'') (js ''.md'')"
    "endsWith (js ''june.md'') (js ''.md'')"
    by code_simp+
  have r: "readFileSync example_fs (js ''jan.md'') = Inr (js ''jan'')"
    "readFileSync example_fs (js ''june.md'') = Inr (js ''june'')"
    "example_matter (js ''jan'') = Inr (example_fm_january, js ''# January'')"
    "example_matter (js ''june'') = Inr (example_fm_june, js ''# June'')"
    by code_simp+
  have 4: "\<forall>name\<in>set ?names. endsWith name (js ''.md'') \<longrightarrow>
             (\<exists>c d body. readFileSync example_fs name = Inr c \<and>
                          example_matter c = Inr (d, body))"
    using e r by simp
  have md: "filter (\<lambda>name. endsWith name (js ''.md'')) ?names = [js ''jan.md'', js ''june.md'']"
    using e by simp
  have strip: "stripMd (js ''jan.md'') = js ''jan''" "stripMd (js ''june.md'') = js ''june''"
    by code_simp+
  from loader_one_summary_per_md_file [OF 1 2 3 4, of example_otherLess]
  obtain articles where
    "getAllArticles example_matter example_otherLess example_fs = Inr articles"
    "mset (map slug articles)
       = mset (map stripMd (filter (\<lambda>name. endsWith name (js ''.md'')) ?names))"
    "\<forall>name\<in>set ?names. endsWith name (js ''.md'') \<longrightarrow>
              count_list (map slug articles) (stripMd name) = 1"
    "length articles = length (filter (\<lambda>name. endsWith name (js ''.md'')) ?names)"
    "distinct (map slug articles)"
    by (elim exE conjE)
  with md strip e 1 2 show ?thesis
    by (intro conjI exI [of _ articles]) simp_all
qed

text \<open>
  The claim C6 fails for a directory in which a file does not parse: \<open>jan.md\<close> ends in
  \<open>.md\<close> and parses, but \<open>broken.md\<close> beside it does not, \<open>getAllArticles\<close> raises, and
  there is no list in which \<open>jan.md\<close> has its summary.
\<close>

theorem loader_no_summary_beside_broken_file_counterexample:
  "readdirSync example_fs_broken = Inr [js ''jan.md'', js ''broken.md'', js ''empty.md''] \<and>
   endsWith (js ''jan.md'') (js ''.md'') \<and>
   toSummary example_matter example_fs_broken (js ''jan.md'') = Inr example_january \<and>
   (case getAllArticles example_matter example_otherLess example_fs_broken of
      Inl e \<Rightarrow> 0
    | Inr articles \<Rightarrow> count_list (map slug articles) (js ''jan'')) = 0"
  by code_simp

text \<open>
  C2, as amended. When the directory holds a \<open>.md\<close> file whose front matter fails to
  parse, \<open>getAllArticles\<close> does not skip it: the exception leaves the function (the
  one of that file or of a file before it), and no summary is returned.
\<close>

theorem loader_parse_failure_is_fatal:
  assumes "existsSync fs"
    and "readdirSync fs = Inr fileNames"
    and "name \<in> set fileNames"
    and "endsWith name (js ''.md'')"
    and "readFileSync fs name = Inr fileContents"
    and "matter fileContents = Inl e"
  shows "\<exists>e'. getAllArticles matter otherLess fs = Inl e'"
proof -
  from assms(5,6) have "toSummary matter fs name = Inl e"
    by (simp add: toSummary_def)
  moreover from assms(3,4)
  have "name \<in> set (filter_arr fileNames (\<lambda>name. endsWith name (js ''.md'')))"
    by (simp add: filter_arr_filter)
  ultimately have "\<exists>e'.
    map_arr (filter_arr fileNames (\<lambda>name. endsWith name (js ''.md''))) (toSummary matter fs)
      = Inl e'"
    by (rule map_arr_Inl [rotated])
  then obtain e' where
    "map_arr (filter_arr fileNames (\<lambda>name. endsWith name (js ''.md''))) (toSummary matter fs)
       = Inl e'" ..
  with assms(1,2) show ?thesis
    by (simp add: getAllArticles_def)
qed

theorem loader_parse_failure_is_fatal_witness:
  "existsSync example_fs_broken \<and>
   readdirSync example_fs_broken = Inr [js ''jan.md'', js ''broken.md'', js ''empty.md''] \<and>
   readFileSync example_fs_broken (js ''broken.md'') = Inr (js ''broken'') \<and>
   example_matter (js ''broken'') = Inl ParseError \<and>
   (\<exists>e'. getAllArticles example_matter example_otherLess example_fs_broken = Inl e')"
proof -
  have 1: "existsSync example_fs_broken"
    and 2: "readdirSync example_fs_broken
              = Inr [js ''jan.md'', js ''broken.md'', js ''empty.md'']"
    by (simp_all add: example_fs_broken_def)
  have 3: "js ''broken.md'' \<in> set [js ''jan.md'', js ''broken.md'', js ''empty.md'']"
    by simp
  have 4: "endsWith (js ''broken.md'') (js ''.md'')"
    and 5: "readFileSync example_fs_broken (js ''broken.md'') = Inr (js ''broken'')"
    and 6: "example_matter (js ''broken'') = Inl ParseError"
    by code_simp+
  from loader_parse_failure_is_fatal
         [where fs = example_fs_broken and matter = example_matter
            and otherLess = example_otherLess, OF 1 2 3 4 5 6] 1 2 5 6
  show ?thesis by simp
qed

text \<open>
  The claim C2 fails: with \<open>jan.md\<close>, which parses, and \<open>broken.md\<close>, which does not,
  \<open>getAllArticles\<close> raises the parse error instead of returning the summary of
  \<open>jan.md\<close>.
\<close>

theorem loader_skips_unparseable_counterexample:
  "toSummary example_matter example_fs_broken (js ''jan.md'') = Inr example_january \<and>
   toSummary example_matter example_fs_broken (js ''broken.md'') = Inl ParseError \<and>
   getAllArticles example_matter example_otherLess example_fs_broken = Inl ParseError \<and>
   getAllArticles example_matter example_otherLess example_fs_broken \<noteq> Inr [example_january]"
proof -
  have "toSummary example_matter example_fs_broken (js ''jan.md'') = Inr example_january"
    by code_simp
  moreover
  have "toSummary example_matter example_fs_broken (js ''broken.md'') = Inl ParseError"
    by code_simp
  moreover
  have "getAllArticles example_matter example_otherLess example_fs_broken = Inl ParseError"
    by code_simp
  ultimately show ?thesis by simp
qed

text \<open>
  C10. When the front matter of an article has a falsy \<open>image\<close> (the empty string,
  undefined, null, false, 0 or NaN), the record of that article in the list of
  \<open>getAllArticles\<close> and the record that \<open>getArticleBySlug\<close> returns have the image
  undefined, so that a test of its truthiness fails.
\<close>

theorem falsy_image_is_undefined:
  "(getAllArticles matter otherLess fs = Inr articles \<and> existsSync fs \<and>
    readdirSync fs = Inr fileNames \<and> name \<in> set fileNames \<and> endsWith name (js ''.md'') \<and>
    readFileSync fs name = Inr c \<and> matter c = Inr (d, body) \<and> \<not> truthy (fm_image d)
    \<longrightarrow> (\<exists>a\<in>set articles. slug a = stripMd name \<and> image' a = JUndefined \<and>
           \<not> truthy (image' a))) \<and>
   (getArticleBySlug matter process fs slug' = Some art \<and>
    readFileSync fs (slug' @ js ''.md'') = Inr c' \<and> matter c' = Inr (d', body') \<and>
    \<not> truthy (fm_image d')
    \<longrightarrow> slug art = slug' \<and> image' art = JUndefined \<and> \<not> truthy (image' art))"
proof (rule conjI; rule impI)
  assume h: "getAllArticles matter otherLess fs = Inr articles \<and> existsSync fs \<and>
    readdirSync fs = Inr fileNames \<and> name \<in> set fileNames \<and> endsWith name (js ''.md'') \<and>
    readFileSync fs name = Inr c \<and> matter c = Inr (d, body) \<and> \<not> truthy (fm_image d)"
  then have g: "getAllArticles matter otherLess fs = Inr articles" and e: "existsSync fs"
    and r: "readFileSync fs name = Inr c" and m: "matter c = Inr (d, body)"
    by simp_all
  from g e obtain fileNames' allArticles where
    rd: "readdirSync fs = Inr fileNames'"
    and all: "map_arr (filter_arr fileNames' (\<lambda>name. endsWith name (js ''.md'')))
                (toSummary matter fs) = Inr allArticles"
    and sorted: "articles = sort_arr allArticles (byDate otherLess)"
    by (rule getAllArticles_Inr)
  from rd h have names: "fileNames' = fileNames" by simp
  from r m have "\<exists>a. toSummary matter fs name = Inr a \<and> slug a = stripMd name \<and>
             image' a = orUndefined (fm_image d)"
    by (rule toSummary_image)
  then obtain a where a: "toSummary matter fs name = Inr a" "slug a = stripMd name"
    "image' a = orUndefined (fm_image d)"
    by (elim exE conjE)
  from h names
  have "name \<in> set (filter_arr fileNames' (\<lambda>name. endsWith name (js ''.md'')))"
    by (simp add: filter_arr_filter)
  with all have "a \<in> set allArticles"
    using a(1) by (rule map_arr_member)
  with sorted have "a \<in> set articles"
    by (simp add: set_sort_arr)
  moreover from a(3) h have "image' a = JUndefined"
    by (simp add: orUndefined_def)
  ultimately show "\<exists>a\<in>set articles. slug a = stripMd name \<and> image' a = JUndefined \<and>
           \<not> truthy (image' a)"
    using a(2) by auto
next
  assume h: "getArticleBySlug matter process fs slug' = Some art \<and>
    readFileSync fs (slug' @ js ''.md'') = Inr c' \<and> matter c' = Inr (d', body') \<and>
    \<not> truthy (fm_image d')"
  then have r: "readFileSync fs (slug' @ js ''.md'') = Inr c'"
    and m: "matter c' = Inr (d', body')"
    and f: "\<not> truthy (fm_image d')"
    and g: "getArticleBySlug matter process fs slug' = Some art"
    by simp_all
  show "slug art = slug' \<and> image' art = JUndefined \<and> \<not> truthy (image' art)"
  proof (cases "process body'")
    case (Inl e)
    with r m g show ?thesis
      by (simp add: getArticleBySlug_def tryArticle_def)
  next
    case (Inr html)
    with r m g f show ?thesis
      by (auto simp add: getArticleBySlug_def tryArticle_def orUndefined_def)
  qed
qed

theorem falsy_image_is_undefined_witness:
  "getAllArticles example_matter example_otherLess example_fs
     = Inr [example_june, example_january] \<and>
   readFileSync example_fs (js ''jan.md'') = Inr (js ''jan'') \<and>
   example_matter (js ''jan'') = Inr (example_fm_january, js ''# January'') \<and>
   fm_image example_fm_january = JStr [] \<and>
   \<not> truthy (fm_image example_fm_january) \<and>
   (\<exists>a\<in>set [example_june, example_january]. slug a = js ''jan'' \<and> image' a = JUndefined) \<and>
   (\<exists>art. getArticleBySlug example_matter example_process example_fs (js ''jan'') = Some art \<and>
          slug art = js ''jan'' \<and> image' art = JUndefined)"
proof -
  let ?names = "[js ''jan.md'', js ''notes.txt'', js ''june.md'']"
  have 1: "existsSync example_fs"
    and 2: "readdirSync example_fs = Inr ?names"
    by (simp_all add: example_fs_def)
  have 3: "js ''jan.md'' \<in> set ?names"
    by simp
  have 4: "endsWith (js ''jan.md'') (js ''.md'')"
    and 5: "readFileSync example_fs (js ''jan.md'') = Inr (js ''jan'')"
    and r5: "readFileSync example_fs (js ''jan'' @ js ''.md'') = Inr (js ''jan'')"
    and 6: "example_matter (js ''jan'') = Inr (example_fm_january, js ''# January'')"
    and 9: "stripMd (js ''jan.md'') = js ''jan''"
    by code_simp+
  have 7: "fm_image example_fm_january = JStr []"
    and 8: "\<not> truthy (fm_image example_fm_january)"
    by (simp_all add: example_fm_january_def)
  have "getArticleBySlug example_matter example_process example_fs (js ''jan'') \<noteq> None"
    by code_simp
  then obtain art where
    art: "getArticleBySlug example_matter example_process example_fs (js ''jan'') = Some art"
    by blast
  note inst = falsy_image_is_undefined
    [of example_matter example_otherLess example_fs "[example_june, example_january]"
        ?names "js ''jan.md''" "js ''jan''"
        example_fm_january "js ''# January''" example_process "js ''jan''" art
        "js ''jan''" example_fm_january "js ''# January''"]
  from inst example_loader [of example_otherLess] 1 2 3 4 5 6 8 9
  have a: "\<exists>a\<in>set [example_june, example_january]. slug a = js ''jan'' \<and> image' a = JUndefined"
    by auto
  from inst art r5 6 8
  have b: "slug art = js ''jan'' \<and> image' art = JUndefined"
    by simp
  from a b art example_loader [of example_otherLess] 5 6 7 8 show ?thesis by blast
qed

text \<open>
  C4. When \<open>slug.md\<close> cannot be read (there is no such file, or the read raises), when
  its front matter does not parse, or when the rendering of its body raises,
  \<open>getArticleBySlug\<close> returns null: the exception stays inside, and the result does
  not tell the causes apart.
\<close>

theorem getArticleBySlug_failure_gives_null:
  "(readFileSync fs (slug' @ js ''.md'') = Inl e
      \<longrightarrow> getArticleBySlug matter process fs slug' = None) \<and>
   (readFileSync fs (slug' @ js ''.md'') = Inr c \<and> matter c = Inl e
      \<longrightarrow> getArticleBySlug matter process fs slug' = None) \<and>
   (readFileSync fs (slug' @ js ''.md'') = Inr c \<and> matter c = Inr (d, body) \<and>
    process body = Inl e
      \<longrightarrow> getArticleBySlug matter process fs slug' = None) \<and>
   (getArticleBySlug matter process fs slug' = None
      \<longleftrightarrow> (\<exists>e'. tryArticle matter process fs slug' = Inl e'))"
proof (intro conjI impI)
  assume "readFileSync fs (slug' @ js ''.md'') = Inl e"
  then show "getArticleBySlug matter process fs slug' = None"
    by (simp add: getArticleBySlug_def tryArticle_def)
next
  assume "readFileSync fs (slug' @ js ''.md'') = Inr c \<and> matter c = Inl e"
  then show "getArticleBySlug matter process fs slug' = None"
    by (simp add: getArticleBySlug_def tryArticle_def)
next
  assume "readFileSync fs (slug' @ js ''.md'') = Inr c \<and> matter c = Inr (d, body) \<and>
    process body = Inl e"
  then show "getArticleBySlug matter process fs slug' = None"
    by (simp add: getArticleBySlug_def tryArticle_def)
next
  show "getArticleBySlug matter process fs slug' = None
      \<longleftrightarrow> (\<exists>e'. tryArticle matter process fs slug' = Inl e')"
    by (cases "tryArticle matter process fs slug'") (simp_all add: getArticleBySlug_def)
qed

theorem getArticleBySlug_failure_gives_null_witness:
  "readFileSync example_fs (js ''nope'' @ js ''.md'') = Inl FsError \<and>
   getArticleBySlug example_matter example_process example_fs (js ''nope'') = None \<and>
   readFileSync example_fs_broken (js ''broken'' @ js ''.md'') = Inr (js ''broken'') \<and>
   example_matter (js ''broken'') = Inl ParseError \<and>
   getArticleBySlug example_matter example_process example_fs_broken (js ''broken'') = None \<and>
   readFileSync example_fs_broken (js ''empty'' @ js ''.md'') = Inr (js ''empty'') \<and>
   example_matter (js ''empty'') = Inr (example_fm_june, []) \<and>
   example_process [] = Inl RenderError \<and>
   getArticleBySlug example_matter example_process example_fs_broken (js ''empty'') = None"
proof -
  have 1: "readFileSync example_fs (js ''nope'' @ js ''.md'') = Inl FsError"
    and 2: "readFileSync example_fs_broken (js ''broken'' @ js ''.md'') = Inr (js ''broken'')"
    and 3: "example_matter (js ''broken'') = Inl ParseError"
    and 4: "readFileSync example_fs_broken (js ''empty'' @ js ''.md'') = Inr (js ''empty'')"
    and 5: "example_matter (js ''empty'') = Inr (example_fm_june, [])"
    and 6: "example_process [] = Inl RenderError"
    by code_simp+
  from getArticleBySlug_failure_gives_null
    [of example_fs "js ''nope''" FsError example_matter example_process] 1
  have a: "getArticleBySlug example_matter example_process example_fs (js ''nope'') = None"
    by simp
  from getArticleBySlug_failure_gives_null
    [of example_fs_broken "js ''broken''" ParseError example_matter example_process
        "js ''broken''"] 2 3
  have b: "getArticleBySlug example_matter example_process example_fs_broken (js ''broken'')
             = None"
    by simp
  from getArticleBySlug_failure_gives_null
    [of example_fs_broken "js ''empty''" RenderError example_matter example_process
        "js ''empty''" example_fm_june "[]"] 4 5 6
  have c: "getArticleBySlug example_matter example_process example_fs_broken (js ''empty'')
             = None"
    by simp
  from 1 2 3 4 5 6 a b c show ?thesis by simp
qed





section \<open>Facts about the sitemap\<close>

lemma Map_set_keys:
  "map fst (Map_set m k v) = (if k \<in> set (map fst m) then map fst m else map fst m @ [k])"
  by (induction m k v rule: Map_set.induct) auto

lemma Map_set_set: "set (Map_set m k v) \<subseteq> insert (k, v) (set m)"
  by (induction m k v rule: Map_set.induct) auto

lemma foldl_Map_set_distinct:
  "distinct (map fst acc) \<Longrightarrow>
   distinct (map fst (foldl (\<lambda>m (k, v). Map_set m k v) acc pairs))"
proof (induction pairs arbitrary: acc)
  case Nil
  then show ?case by simp
next
  case (Cons p pairs)
  obtain k v where p: "p = (k, v)" by (cases p)
  from Cons.prems have "distinct (map fst (Map_set acc k v))"
    by (simp add: Map_set_keys)
  then have "distinct (map fst (foldl (\<lambda>m (k, v). Map_set m k v) (Map_set acc k v) pairs))"
    by (rule Cons.IH)
  with p show ?case by simp
qed

lemma foldl_Map_set_keys:
  "set (map fst (foldl (\<lambda>m (k, v). Map_set m k v) acc pairs))
     = set (map fst acc) \<union> set (map fst pairs)"
proof (induction pairs arbitrary: acc)
  case Nil
  show ?case by simp
next
  case (Cons p pairs)
  obtain k v where p: "p = (k, v)" by (cases p)
  have "set (map fst (foldl (\<lambda>m (k, v). Map_set m k v) (Map_set acc k v) pairs))
          = set (map fst (Map_set acc k v)) \<union> set (map fst pairs)"
    by (rule Cons.IH)
  also have "set (map fst (Map_set acc k v)) = insert k (set (map fst acc))"
    by (auto simp: Map_set_keys)
  finally show ?case using p by auto
qed

lemma foldl_Map_set_set:
  "set (foldl (\<lambda>m (k, v). Map_set m k v) acc pairs) \<subseteq> set acc \<union> set pairs"
proof (induction pairs arbitrary: acc)
  case Nil
  show ?case by simp
next
  case (Cons p pairs)
  obtain k v where p: "p = (k, v)" by (cases p)
  have "set (foldl (\<lambda>m (k, v). Map_set m k v) (Map_set acc k v) pairs)
          \<subseteq> set (Map_set acc k v) \<union> set pairs"
    by (rule Cons.IH)
  also have "\<dots> \<subseteq> insert (k, v) (set acc) \<union> set pairs"
    using Map_set_set [of acc k v] by auto
  finally show ?case using p by auto
qed

lemma new_Map_urls:
  fixes pages :: "entry list"
  defines "unique \<equiv> Map_values (new_Map (map (\<lambda>page. (url page, page)) pages))"
  shows "distinct (map url unique) \<and> set (map url unique) = set (map url pages)"
proof -
  let ?m = "new_Map (map (\<lambda>page. (url page, page)) pages)"
  have "set ?m \<subseteq> set (map (\<lambda>page. (url page, page)) pages)"
    using foldl_Map_set_set [of "[]" "map (\<lambda>page. (url page, page)) pages"]
    by (simp add: new_Map_def)
  then have "\<forall>kv\<in>set ?m. url (snd kv) = fst kv"
    by auto
  then have eq: "map url unique = map fst ?m"
    by (simp add: unique_def Map_values_def)
  have "distinct (map fst ?m)"
    unfolding new_Map_def by (rule foldl_Map_set_distinct) simp
  moreover have "set (map fst ?m) = set (map url pages)"
    unfolding new_Map_def
    using foldl_Map_set_keys [of "[]" "map (\<lambda>page. (url page, page)) pages"]
    by (simp add: comp_def)
  ultimately show ?thesis by (simp add: eq)
qed

lemma articlePage_url:
  "articlePage toISOString a = Inr page \<Longrightarrow> url page = baseUrl @ js ''/article/'' @ slug a"
  by (auto simp: articlePage_def split: sum.splits)

lemma authorPage_url:
  "authorPage lower toISOString a = Inr page \<Longrightarrow>
   url page = baseUrl @ js ''/author/'' @ projr (authorSlug lower (author a))"
  by (auto simp: authorPage_def split: sum.splits)

lemma authorPage_author:
  assumes "authorPage lower toISOString a = Inr page"
  shows "\<exists>name. author a = JStr name \<and>
           authorSlug lower (author a) = Inr (hyphenate (toLowerCase lower name))"
proof (cases "author a")
  case (JStr name)
  then show ?thesis by (simp add: authorSlug_def)
qed (use assms in \<open>simp_all add: authorPage_def authorSlug_def\<close>)

lemma article_url_neq_author_url [simp]:
  "js ''/article/'' @ s \<noteq> js ''/author/'' @ t" "js ''/author/'' @ t \<noteq> js ''/article/'' @ s"
  by (simp_all add: js_def)

lemma sitemap_urls:
  assumes "sitemap matter otherLess lower toISOString currentDate fs = Inr entries"
    and "getAllArticles matter otherLess fs = Inr articles"
  obtains authorUrls where
    "map url entries
       = baseUrl # map (\<lambda>a. baseUrl @ js ''/article/'' @ slug a) articles @ authorUrls"
    "distinct authorUrls"
    "set authorUrls
       = (\<lambda>a. baseUrl @ js ''/author/'' @ projr (authorSlug lower (author a))) ` set articles"
    "\<forall>a\<in>set articles. \<exists>name. author a = JStr name \<and>
        authorSlug lower (author a) = Inr (hyphenate (toLowerCase lower name))"
proof -
  from assms obtain articlePages authorPages where
    ap: "map_arr articles (articlePage toISOString) = Inr articlePages"
    and up: "map_arr articles (authorPage lower toISOString) = Inr authorPages"
    and es: "entries =
      \<lparr> url = baseUrl, lastModified = currentDate, changeFrequency = js ''daily'',
        priority = 1 \<rparr>
      # articlePages
      @ Map_values (new_Map (map (\<lambda>page. (url page, page)) authorPages))"
    by (auto simp: sitemap_def split: sum.splits)
  let ?unique = "Map_values (new_Map (map (\<lambda>page. (url page, page)) authorPages))"
  from ap have 1: "map url articlePages
      = map (\<lambda>a. baseUrl @ js ''/article/'' @ slug a) articles"
    by (rule map_arr_map) (rule articlePage_url)
  from up have 2: "map url authorPages
      = map (\<lambda>a. baseUrl @ js ''/author/'' @ projr (authorSlug lower (author a))) articles"
    by (rule map_arr_map) (rule authorPage_url)
  have 3: "distinct (map url ?unique) \<and> set (map url ?unique) = set (map url authorPages)"
    by (rule new_Map_urls)
  have 4: "\<exists>name. author a = JStr name \<and>
        authorSlug lower (author a) = Inr (hyphenate (toLowerCase lower name))"
    if "a \<in> set articles" for a
  proof -
    from map_arr_success [OF up that]
    obtain page where "authorPage lower toISOString a = Inr page"
      by blast
    then show ?thesis by (rule authorPage_author)
  qed
  show thesis
  proof (rule that [of "map url ?unique"])
    show "map url entries
       = baseUrl # map (\<lambda>a. baseUrl @ js ''/article/'' @ slug a) articles @ map url ?unique"
      by (simp add: es 1)
    show "distinct (map url ?unique)" using 3 by simp
    show "set (map url ?unique)
        = (\<lambda>a. baseUrl @ js ''/author/'' @ projr (authorSlug lower (author a))) ` set articles"
      using 3 by (simp add: 2)
    show "\<forall>a\<in>set articles. \<exists>name. author a = JStr name \<and>
        authorSlug lower (author a) = Inr (hyphenate (toLowerCase lower name))"
      using 4 by blast
  qed
qed


section \<open>Properties of the sitemap\<close>

text \<open>
  C9. For the list of articles of the loader, the file names of the directory being
  distinct, the sitemap that is generated holds exactly one entry with the address
  \<open>baseUrl/article/slug\<close> for every article and exactly one entry with the address
  \<open>baseUrl/author/author-slug\<close> for every author slug, the slug of an author being
  the name in lower case with every run of white space replaced by a hyphen; apart
  from the entry of the home page there are no other entries.
\<close>

theorem sitemap_one_entry_per_article_and_author:
  assumes "sitemap matter otherLess lower toISOString currentDate fs = Inr entries"
    and "getAllArticles matter otherLess fs = Inr articles"
    and "\<forall>fileNames. readdirSync fs = Inr fileNames \<longrightarrow> distinct fileNames"
  shows "(\<forall>a\<in>set articles.
            count_list (map url entries) (baseUrl @ js ''/article/'' @ slug a) = 1) \<and>
         (\<forall>a\<in>set articles. \<exists>name. author a = JStr name \<and>
            count_list (map url entries)
              (baseUrl @ js ''/author/'' @ hyphenate (toLowerCase lower name)) = 1) \<and>
         length entries
           = 1 + length articles + card ((\<lambda>a. authorSlug lower (author a)) ` set articles)"
proof -
  let ?article = "\<lambda>a. baseUrl @ js ''/article/'' @ slug a"
  let ?slug = "\<lambda>a. projr (authorSlug lower (author a))"
  let ?author = "\<lambda>a. baseUrl @ js ''/author/'' @ ?slug a"
  from assms(1,2) obtain authorUrls where
    urls: "map url entries = baseUrl # map ?article articles @ authorUrls"
    and du: "distinct authorUrls"
    and su: "set authorUrls = ?author ` set articles"
    and names: "\<forall>a\<in>set articles. \<exists>name. author a = JStr name \<and>
        authorSlug lower (author a) = Inr (hyphenate (toLowerCase lower name))"
    by (rule sitemap_urls)
  from assms(2,3) have "distinct (map slug articles)"
    by (rule getAllArticles_distinct_slugs)
  then have da: "distinct (map ?article articles)"
    by (simp add: distinct_map inj_on_def)
  have one_article: "count_list (map url entries) (?article a) = 1" if "a \<in> set articles" for a
  proof -
    from that have "?article a \<in> set (map ?article articles)" by simp
    with da have "count_list (map ?article articles) (?article a) = 1"
      by (rule count_list_distinct)
    moreover have "?article a \<notin> set authorUrls"
      by (auto simp: su)
    ultimately show ?thesis
      by (simp add: urls)
  qed
  have one_author: "\<exists>name. author a = JStr name \<and>
      count_list (map url entries)
        (baseUrl @ js ''/author/'' @ hyphenate (toLowerCase lower name)) = 1"
    if "a \<in> set articles" for a
  proof -
    from that names obtain name where name: "author a = JStr name"
      and slug: "authorSlug lower (author a) = Inr (hyphenate (toLowerCase lower name))"
      by blast
    from that have "?author a \<in> set authorUrls" by (simp add: su)
    with du have "count_list authorUrls (?author a) = 1"
      by (rule count_list_distinct)
    moreover have "?author a \<notin> set (map ?article articles)"
      by auto
    ultimately have "count_list (map url entries) (?author a) = 1"
      by (simp add: urls)
    with name slug show ?thesis by simp
  qed
  have "length authorUrls = card (set authorUrls)"
    using du by (simp add: distinct_card)
  also have "\<dots> = card ((\<lambda>s. baseUrl @ js ''/author/'' @ s) ` ?slug ` set articles)"
    by (simp add: su image_image)
  also have "\<dots> = card (?slug ` set articles)"
    by (rule card_image) (simp add: inj_on_def)
  also have "\<dots> = card (Inr ` ?slug ` set articles :: (error + jsstring) set)"
    by (rule card_image [symmetric]) (simp add: inj_on_def)
  also have "Inr ` ?slug ` set articles = (\<lambda>a. authorSlug lower (author a)) ` set articles"
  proof -
    have "Inr (?slug a) = authorSlug lower (author a)" if "a \<in> set articles" for a
      using that names by force
    then show ?thesis by (auto simp: image_image)
  qed
  finally have "length authorUrls = card ((\<lambda>a. authorSlug lower (author a)) ` set articles)" .
  moreover have "length (map url entries) = 1 + length articles + length authorUrls"
    by (simp add: urls)
  ultimately have len: "length entries
      = 1 + length articles + card ((\<lambda>a. authorSlug lower (author a)) ` set articles)"
    by simp
  from one_article one_author len show ?thesis
    by blast
qed

theorem sitemap_one_entry_per_article_and_author_witness:
  "getAllArticles example_matter example_otherLess example_fs_authors
     = Inr [example_july, example_june, example_january] \<and>
   sitemap example_matter example_otherLess example_lower example_toISOString
       (js ''2026-01-01T00:00:00.000Z'') example_fs_authors
     = Inr example_entries \<and>
   map url example_entries =
     [js ''https://blog.zendfi.tech'',
      js ''https://blog.zendfi.tech/article/july'',
      js ''https://blog.zendfi.tech/article/june'',
      js ''https://blog.zendfi.tech/article/jan'',
      js ''https://blog.zendfi.tech/author/zendfi-team'',
      js ''https://blog.zendfi.tech/author/blessed-tosin-oyinbo''] \<and>
   author example_july = JStr (js ''ZENDFI'' @ [160] @ js ''Team'') \<and>
   count_list (map url example_entries) (baseUrl @ js ''/article/'' @ js ''july'') = 1 \<and>
   count_list (map url example_entries) (baseUrl @ js ''/author/'' @ js ''zendfi-team'') = 1 \<and>
   length example_entries = 6"
proof -
  have g: "getAllArticles example_matter example_otherLess example_fs_authors
             = Inr [example_july, example_june, example_january]"
    by code_simp
  have "\<not> isl (sitemap example_matter example_otherLess example_lower example_toISOString
                  (js ''2026-01-01T00:00:00.000Z'') example_fs_authors)"
    by code_simp
  then have s: "sitemap example_matter example_otherLess example_lower example_toISOString
                  (js ''2026-01-01T00:00:00.000Z'') example_fs_authors = Inr example_entries"
    by (simp add: example_entries_def)
  have d: "\<forall>fileNames. readdirSync example_fs_authors = Inr fileNames \<longrightarrow> distinct fileNames"
  proof (intro allI impI)
    fix fileNames
    assume "readdirSync example_fs_authors = Inr fileNames"
    then have "fileNames = [js ''jan.md'', js ''june.md'', js ''july.md'']"
      by (simp add: example_fs_authors_def)
    moreover have "distinct [js ''jan.md'', js ''june.md'', js ''july.md'']"
      by code_simp
    ultimately show "distinct fileNames" by simp
  qed
  have u: "map url example_entries =
     [js ''https://blog.zendfi.tech'',
      js ''https://blog.zendfi.tech/article/july'',
      js ''https://blog.zendfi.tech/article/june'',
      js ''https://blog.zendfi.tech/article/jan'',
      js ''https://blog.zendfi.tech/author/zendfi-team'',
      js ''https://blog.zendfi.tech/author/blessed-tosin-oyinbo'']"
    by code_simp
  have h: "authorSlug example_lower (author example_july) = Inr (js ''zendfi-team'')"
    "authorSlug example_lower (author example_january) = Inr (js ''zendfi-team'')"
    "authorSlug example_lower (author example_june) = Inr (js ''blessed-tosin-oyinbo'')"
    "hyphenate (toLowerCase example_lower (js ''ZENDFI'' @ [160] @ js ''Team''))
       = js ''zendfi-team''"
    "js ''zendfi-team'' \<noteq> js ''blessed-tosin-oyinbo''"
    by code_simp+
  have f: "slug example_july = js ''july''"
    "author example_july = JStr (js ''ZENDFI'' @ [160] @ js ''Team'')"
    by (simp_all add: example_july_def)
  note inst = sitemap_one_entry_per_article_and_author [OF s g d]
  from inst f have "count_list (map url example_entries) (baseUrl @ js ''/article/'' @ js ''july'') = 1"
    by simp
  moreover from inst f h(4)
  have "count_list (map url example_entries) (baseUrl @ js ''/author/'' @ js ''zendfi-team'') = 1"
    by auto
  moreover from inst h(1,2,3,5) have "length example_entries = 6"
    by (simp add: card_insert_if)
  ultimately show ?thesis using g s u f by simp
qed

end
